theory Spec2Isabelle
  imports Complex_Main "HOL-Library.Word"
begin

section \<open>The audio pipeline of the emulator: transports and player\<close>

text \<open>
  The development embeds the worker-side audio transports
  (\<^verbatim>\<open>SharedMemoryEmulatorWorkerAudio\<close>, \<^verbatim>\<open>FallbackEmulatorWorkerAudio\<close>) and the
  UI-side player (\<^verbatim>\<open>EmulatorAudio\<close> with its two subclasses) as state-passing functions.
  Every method takes the object's state and returns the new state together with the list
  of effects it performed (console output, delegate calls, posted messages).

  JavaScript numbers that the program uses as counts, rates and sizes are modelled as
  unbounded integers, and millisecond quantities as rationals: double rounding is not
  modelled, so the embedding is exact for values of magnitude below \<open>2 ^ 53\<close>. The values a
  message of the renderer can carry after \<^verbatim>\<open>Number(...)\<close> include the non-finite ones and
  are modelled by the type \<open>jsnum\<close>. The bit operation \<^verbatim>\<open>>> 3\<close> works on 32-bit
  two's-complement integers and is modelled on \<open>32 word\<close>.
\<close>

subsection \<open>Numbers\<close>

type_synonym byte = "8 word"

datatype jsnum = Finite rat | NaN | PosInfinity | NegInfinity

fun Number_isFinite :: "jsnum \<Rightarrow> bool" where
  "Number_isFinite (Finite _) = True"
| "Number_isFinite _ = False"

definition shr3 :: "int \<Rightarrow> int" where
  \<comment> \<open>\<^verbatim>\<open>x >> 3\<close>: \<^verbatim>\<open>ToInt32\<close>, then an arithmetic shift right by three bits.\<close>
  "shr3 x = sint (signed_drop_bit 3 (word_of_int x :: 32 word))"


subsection \<open>Console output\<close>

datatype console_msg =
    CannotFit nat nat
    \<comment> \<open>"Audio buffer cannot fit new audio (n bytes), only m bytes available."\<close>
  | AudioContextNotSupported
  | AudioWorkletNotSupported
  | AudioInit string int int int
    \<comment> \<open>"<verb> audio (sampleRate=.., sampleSize=.., channels=..)"\<close>

subsection \<open>The ring buffer\<close>

text \<open>
  Modelled from the spec: the class \<^verbatim>\<open>RingBuffer\<close> of the package \<^verbatim>\<open>ringbuf.js\<close>, which the
  sources import and which is not among them. The spec describes it as a fixed-capacity
  byte queue over shared memory, for a single producer and a single consumer that
  coordinate solely through a read and a write cursor, never resized, whose free and used
  space always add up to the capacity. The model keeps the element storage and the two
  cursors; one slot of the storage stays free, so that equal cursors mean an empty queue.
  Each operation is atomic in the model: the interleaving of producer and consumer is at
  the granularity of whole calls.
\<close>

record ring_buffer =
  storage :: "byte list"
  read_ptr :: nat
  write_ptr :: nat

definition storage_capacity :: "ring_buffer \<Rightarrow> nat" where
  "storage_capacity rb = length (storage rb)"

definition capacity :: "ring_buffer \<Rightarrow> nat" where
  "capacity rb = storage_capacity rb - 1"

definition available_read :: "ring_buffer \<Rightarrow> nat" where
  "available_read rb =
     (write_ptr rb + storage_capacity rb - read_ptr rb) mod storage_capacity rb"

definition available_write :: "ring_buffer \<Rightarrow> nat" where
  "available_write rb = capacity rb - available_read rb"

definition RingBuffer_new :: "nat \<Rightarrow> ring_buffer" where
  \<comment> \<open>A ring buffer over fresh (zeroed) shared memory that holds up to \<open>n\<close> bytes.\<close>
  "RingBuffer_new n = \<lparr>storage = replicate (n + 1) 0, read_ptr = 0, write_ptr = 0\<rparr>"

definition copy :: "byte list \<Rightarrow> nat \<Rightarrow> byte list \<Rightarrow> nat \<Rightarrow> nat \<Rightarrow> byte list" where
  \<comment> \<open>Copies \<open>sz\<close> elements of \<open>input\<close> from \<open>offset_input\<close> into \<open>output\<close> at \<open>offset_output\<close>.\<close>
  "copy input offset_input output offset_output sz =
     take offset_output output @ take sz (drop offset_input input)
       @ drop (offset_output + sz) output"

definition push :: "ring_buffer \<Rightarrow> byte list \<Rightarrow> nat \<times> ring_buffer" where
  \<comment> \<open>Writes as many of the elements as fit and returns how many were written.\<close>
  "push rb elements =
     (let rd = read_ptr rb; wr = write_ptr rb in
      if (wr + 1) mod storage_capacity rb = rd then (0, rb)
      else
        let to_write = min (available_write rb) (length elements);
            first_part = min (storage_capacity rb - wr) to_write;
            second_part = to_write - first_part;
            s1 = copy elements 0 (storage rb) wr first_part;
            s2 = copy elements first_part s1 0 second_part
        in (to_write, rb\<lparr>storage := s2, write_ptr := (wr + to_write) mod storage_capacity rb\<rparr>))"

definition pop :: "ring_buffer \<Rightarrow> nat \<Rightarrow> byte list \<times> ring_buffer" where
  \<comment> \<open>Reads up to \<open>n\<close> elements, oldest first, and returns them.\<close>
  "pop rb n =
     (let rd = read_ptr rb; wr = write_ptr rb in
      if wr = rd then ([], rb)
      else
        let to_read = min (available_read rb) n;
            first_part = min (storage_capacity rb - rd) to_read;
            second_part = to_read - first_part
        in (take first_part (drop rd (storage rb)) @ take second_part (storage rb),
            rb\<lparr>read_ptr := (rd + to_read) mod storage_capacity rb\<rparr>))"

definition rb_wf :: "ring_buffer \<Rightarrow> bool" where
  \<comment> \<open>Both cursors point into the storage.\<close>
  "rb_wf rb = (read_ptr rb < storage_capacity rb \<and> write_ptr rb < storage_capacity rb)"

definition rb_contents :: "ring_buffer \<Rightarrow> byte list" where
  \<comment> \<open>The unread bytes, oldest first.\<close>
  "rb_contents rb = fst (pop rb (available_read rb))"

subsection \<open>The shared-memory transport of the worker\<close>

text \<open>
  \<^verbatim>\<open>SharedMemoryEmulatorWorkerAudio\<close> holds nothing but the ring buffer, so its state is the
  ring buffer. \<^verbatim>\<open>enqueueAudio\<close> returns the new state and the warnings it printed.
\<close>

definition shared_audioBufferSize :: "ring_buffer \<Rightarrow> nat" where
  "shared_audioBufferSize rb = available_read rb"

definition shared_enqueueAudio :: "ring_buffer \<Rightarrow> byte list \<Rightarrow> ring_buffer \<times> console_msg list" where
  "shared_enqueueAudio rb newAudio =
     (let availableWrite = available_write rb in
      if availableWrite < length newAudio
      then (rb, [CannotFit (length newAudio) availableWrite])
      else (snd (push rb newAudio), []))"

subsection \<open>The fallback transport of the worker\<close>

record fallback_worker =
  bytesPerSecond :: int
  estimatedBufferedBytes :: int
  lastEstimateAt :: rat

definition FallbackEmulatorWorkerAudio_new :: "rat \<Rightarrow> fallback_worker" where
  \<comment> \<open>The argument is the value of \<^verbatim>\<open>performance.now()\<close> at construction.\<close>
  "FallbackEmulatorWorkerAudio_new now =
     \<lparr>bytesPerSecond = 22050 * 2 * 4, estimatedBufferedBytes = 0, lastEstimateAt = now\<rparr>"

definition setAudioFormat :: "int \<Rightarrow> int \<Rightarrow> int \<Rightarrow> fallback_worker \<Rightarrow> fallback_worker" where
  "setAudioFormat sampleRate sampleSize channels w =
     (let bps = sampleRate * max 1 (shr3 sampleSize) * channels in
      if Number_isFinite (Finite (of_int bps)) \<and> bps > 0
      then w\<lparr>bytesPerSecond := bps\<rparr> else w)"

definition drainEstimate :: "rat \<Rightarrow> fallback_worker \<Rightarrow> fallback_worker" where
  \<comment> \<open>The first argument is the value \<^verbatim>\<open>performance.now()\<close> returns in this call.\<close>
  "drainEstimate now w =
     (let elapsedSeconds = (now - lastEstimateAt w) / 1000;
          w1 = w\<lparr>lastEstimateAt := now\<rparr> in
      if elapsedSeconds \<le> 0 \<or> estimatedBufferedBytes w1 \<le> 0 then w1
      else
        let drained = \<lfloor>of_int (bytesPerSecond w1) * elapsedSeconds\<rfloor> in
        w1\<lparr>estimatedBufferedBytes := max 0 (estimatedBufferedBytes w1 - drained)\<rparr>)"


definition fallback_enqueueAudio ::
  "rat \<Rightarrow> byte list \<Rightarrow> fallback_worker \<Rightarrow> (nat \<times> byte list list) \<times> fallback_worker" where
  \<comment> \<open>Returns the method's result, the copies handed to the sender, and the new state.\<close>
  "fallback_enqueueAudio now newAudio w =
     (let w1 = drainEstimate now w;
          sent = [newAudio];
          w2 = w1\<lparr>estimatedBufferedBytes := estimatedBufferedBytes w1 + int (length newAudio)\<rparr>
      in ((length newAudio, sent), w2))"

subsection \<open>The player: data\<close>

datatype transport_tag = Shared | Fallback

datatype ctx_state = Suspended | Running | Closed

text \<open>
  The delegate is an object whose methods are all optional: the record says which ones it
  implements. A notification is a call of one of them.
\<close>

record delegate =
  emulatorAudioDidOpen :: bool
  emulatorAudioDidRun :: bool
  emulatorAudioDidBlock :: bool
  emulatorAudioDidReportActivity :: bool
  emulatorAudioDidProbe :: bool
  emulatorAudioDidQueueStats :: bool

datatype notification =
    DidOpen int int int
  | DidRun
  | DidBlock
  | DidReportActivity int
  | DidQueueStats rat int transport_tag
    \<comment> \<open>\<^verbatim>\<open>{bufferedMs, droppedChunks, mode}\<close>\<close>

datatype port_message = Data "byte list" | Reset

datatype effect =
    Warn console_msg
  | Log console_msg
  | Notify notification
  | PostMessage port_message
    \<comment> \<open>\<^verbatim>\<open>emulatorPlaybackNode.port.postMessage\<close>\<close>
  | HandleInput
    \<comment> \<open>\<^verbatim>\<open>input.handleInput({type: "audio-context-running"})\<close>\<close>
  | ContextClose
  | ContextResume


text \<open>
  The window keeps the timers the player has set (intervals and pending timeouts, by
  their ids) and whether \<^verbatim>\<open>resumeOnGesture\<close> listens for \<^verbatim>\<open>pointerdown\<close>.
\<close>

datatype timer = ActivityInterval | ProbeInterval | DebugInterval | SettleTimeout

record window =
  pointerdown_listener :: bool
  timers :: "(nat \<times> timer) list"
  next_timer_id :: nat

record audio_context =
  state :: ctx_state
  statechange_listener :: bool

record platform =
  has_AudioContext :: bool
  has_AudioWorklet :: bool
  initial_state :: ctx_state

text \<open>
  The two subclasses of \<^verbatim>\<open>EmulatorAudio\<close>: the shared-memory player owns the ring
  buffer, the fallback player has no field of its own.
\<close>

datatype audio_subclass = SharedMemoryEmulatorAudio ring_buffer | FallbackEmulatorAudio

text \<open>
  The fields of \<^verbatim>\<open>EmulatorAudio\<close>, then the subclass with its fields, then the window
  the player lives in. \<open>analyser\<close> stands for both \<^verbatim>\<open>#analyser\<close> and
  \<^verbatim>\<open>#analyserFrame\<close>, which are set and cleared together.
\<close>

record emulator_audio =
  audioContext :: "audio_context option"
  delegate :: "delegate option"
  debugInterval :: "nat option"
  activityInterval :: "nat option"
  probeInterval :: "nat option"
  activityBytes :: int
  lastReportedBytesPerSecond :: int
  audioRunning :: bool
  sampleRate :: int
  sampleSize :: int
  channels :: int
  queueBufferedMs :: rat
  queueDroppedChunks :: int
  analyser :: bool
  emulatorPlaybackNode :: bool
  sub :: audio_subclass
  win :: window

definition AUDIO_BUFFER_SIZE :: nat where
  "AUDIO_BUFFER_SIZE = 2 * 22050"

definition EmulatorAudio_new :: "audio_subclass \<Rightarrow> delegate option \<Rightarrow> window \<Rightarrow> emulator_audio" where
  \<comment> \<open>The ring buffer of the shared-memory player is the one the library lays over its
      \<^verbatim>\<open>SharedArrayBuffer\<close> of \<open>AUDIO_BUFFER_SIZE\<close> bytes.\<close>
  "EmulatorAudio_new sb d w =
     \<lparr>audioContext = None, delegate = d, debugInterval = None, activityInterval = None,
      probeInterval = None, activityBytes = 0, lastReportedBytesPerSecond = 0,
      audioRunning = False, sampleRate = 0, sampleSize = 0, channels = 0,
      queueBufferedMs = 0, queueDroppedChunks = 0, analyser = False,
      emulatorPlaybackNode = False, sub = sb, win = w\<rparr>"

subsection \<open>The player: the window's timers and the delegate\<close>

definition setTimer :: "timer \<Rightarrow> window \<Rightarrow> nat \<times> window" where
  \<comment> \<open>\<^verbatim>\<open>window.setInterval\<close> and \<^verbatim>\<open>window.setTimeout\<close>: a fresh id.\<close>
  "setTimer k w =
     (next_timer_id w,
      w\<lparr>timers := timers w @ [(next_timer_id w, k)], next_timer_id := next_timer_id w + 1\<rparr>)"

definition clearInterval :: "nat \<Rightarrow> window \<Rightarrow> window" where
  "clearInterval i w = w\<lparr>timers := filter (\<lambda>t. fst t \<noteq> i) (timers w)\<rparr>"

definition truthy :: "nat option \<Rightarrow> bool" where
  \<comment> \<open>\<^verbatim>\<open>if (this.#activityInterval)\<close>: defined and not zero.\<close>
  "truthy x = (case x of None \<Rightarrow> False | Some i \<Rightarrow> i \<noteq> 0)"

definition clearIfSet :: "nat option \<Rightarrow> window \<Rightarrow> window" where
  "clearIfSet x w = (if truthy x then clearInterval (the x) w else w)"

fun handles :: "delegate \<Rightarrow> notification \<Rightarrow> bool" where
  "handles d (DidOpen _ _ _) = emulatorAudioDidOpen d"
| "handles d DidRun = emulatorAudioDidRun d"
| "handles d DidBlock = emulatorAudioDidBlock d"
| "handles d (DidReportActivity _) = emulatorAudioDidReportActivity d"
| "handles d (DidQueueStats _ _ _) = emulatorAudioDidQueueStats d"

definition notify :: "emulator_audio \<Rightarrow> notification \<Rightarrow> effect list" where
  \<comment> \<open>\<^verbatim>\<open>this.#delegate?.method?.(...)\<close>\<close>
  "notify p n =
     (case delegate p of None \<Rightarrow> [] | Some d \<Rightarrow> if handles d n then [Notify n] else [])"

subsection \<open>The player: the methods of the subclasses\<close>


definition ring_reset :: "ring_buffer \<Rightarrow> ring_buffer" where
  \<comment> \<open>\<^verbatim>\<open>pop\<close> into a buffer of \<^verbatim>\<open>available_read()\<close> bytes, which is thrown away.\<close>
  "ring_reset rb = snd (pop rb (available_read rb))"

definition resetAudioBuffer :: "emulator_audio \<Rightarrow> emulator_audio \<times> effect list" where
  "resetAudioBuffer p =
     (case sub p of
        SharedMemoryEmulatorAudio audioRingBuffer \<Rightarrow>
          (p\<lparr>sub := SharedMemoryEmulatorAudio (ring_reset audioRingBuffer)\<rparr>, [])
      | FallbackEmulatorAudio \<Rightarrow>
          (p, if emulatorPlaybackNode p then [PostMessage Reset] else []))"




subsection \<open>The player: the methods of \<^verbatim>\<open>EmulatorAudio\<close>\<close>

definition resumeOnGesture :: "emulator_audio \<Rightarrow> effect list" where
  "resumeOnGesture p = (case audioContext p of None \<Rightarrow> [] | Some _ \<Rightarrow> [ContextResume])"

definition requestResume :: "emulator_audio \<Rightarrow> effect list" where
  "requestResume p = resumeOnGesture p"

definition handleAudioContextRunning :: "emulator_audio \<Rightarrow> emulator_audio \<times> effect list" where
  "handleAudioContextRunning p =
     (if audioRunning p then (p, [])
      else
        let p1 = p\<lparr>audioRunning := True\<rparr>;
            (p2, e2) = resetAudioBuffer p1;
            e3 = HandleInput # notify p2 DidRun;
            p3 = (if (case delegate p2 of None \<Rightarrow> False
                      | Some d \<Rightarrow> emulatorAudioDidReportActivity d \<or> emulatorAudioDidProbe d)
                  then let (i, w) = setTimer ActivityInterval (win p2)
                       in p2\<lparr>activityInterval := Some i, win := w\<rparr>
                  else p2);
            p4 = (if (case delegate p3 of None \<Rightarrow> False | Some d \<Rightarrow> emulatorAudioDidProbe d)
                  then let (i, w) = setTimer ProbeInterval (win p3)
                       in p3\<lparr>probeInterval := Some i, win := w\<rparr>
                  else p3)
        in (p4, e2 @ e3))"

text \<open>
  \<^verbatim>\<open>close()\<close> is asynchronous; the model closes the device at once. On a device that is
  closed already it only rejects a promise that nobody awaits.
\<close>

definition stop :: "emulator_audio \<Rightarrow> emulator_audio \<times> effect list" where
  "stop p =
     (let e = (case audioContext p of None \<Rightarrow> [] | Some _ \<Rightarrow> [ContextClose]);
          c = (case audioContext p of None \<Rightarrow> None | Some a \<Rightarrow> Some (a\<lparr>state := Closed\<rparr>));
          w0 = (win p)\<lparr>pointerdown_listener := False\<rparr>;
          w1 = clearIfSet (activityInterval p) w0;
          w2 = clearIfSet (probeInterval p) w1;
          w3 = clearIfSet (debugInterval p) w2
      in (p\<lparr>audioContext := c, win := w3, audioRunning := False, activityBytes := 0,
            lastReportedBytesPerSecond := 0, queueBufferedMs := 0, queueDroppedChunks := 0,
            sampleRate := 0, sampleSize := 0, channels := 0, analyser := False\<rparr>, e))"





text \<open>
  \<^verbatim>\<open>init\<close> asks the platform three things: whether \<^verbatim>\<open>AudioContext\<close> exists, whether the
  audio worklet exists, and in which state a new device starts. Exceptions that the
  constructors of the platform throw on arguments they refuse are outside the model.
\<close>

definition init ::
  "platform \<Rightarrow> int \<Rightarrow> int \<Rightarrow> int \<Rightarrow> bool \<Rightarrow> emulator_audio \<Rightarrow> emulator_audio \<times> effect list" where
  \<comment> \<open>The asynchronous method, run to its end without interleaving.\<close>
  "init env sr ss ch debug p =
     (if \<not> has_AudioContext env then (p, [Warn AudioContextNotSupported])
      else
        let (verb, p1, e1) =
              (case audioContext p of
                 None \<Rightarrow> (''Initializing'', p, [])
               | Some _ \<Rightarrow>
                   let (pa, ea) = stop p; (pb, eb) = resetAudioBuffer pa
                   in (''Re-initializing'', pb, ea @ eb));
            e2 = Log (AudioInit verb sr ss ch) # notify p1 (DidOpen sr ss ch);
            p2 = p1\<lparr>sampleRate := sr, sampleSize := ss, channels := ch,
                    audioContext :=
                      Some \<lparr>state = initial_state env, statechange_listener = False\<rparr>\<rparr>
        in
        if \<not> has_AudioWorklet env then (p2, e1 @ e2 @ [Warn AudioWorkletNotSupported])
        else
          let p3 = p2\<lparr>emulatorPlaybackNode := True, analyser := True\<rparr>;
              (p4, e4) =
                (if initial_state env = Suspended
                 then (p3\<lparr>win := (win p3)\<lparr>pointerdown_listener := True\<rparr>,
                          audioContext :=
                            Some \<lparr>state = Suspended, statechange_listener = True\<rparr>\<rparr>,
                       notify p3 DidBlock @ resumeOnGesture p3)
                 else handleAudioContextRunning p3);
              p5 = (if debug
                    then let (i, w) = setTimer DebugInterval (win p4)
                         in p4\<lparr>debugInterval := Some i, win := w\<rparr>
                    else p4)
          in (p5, e1 @ e2 @ e4))"

text \<open>
  The events of the platform that run code of the player: the device changes its state
  (the \<^verbatim>\<open>statechange\<close> listener of \<^verbatim>\<open>init\<close>), a timer of the window fires, the activity
  interval ticks. The probe and debug intervals only read the state and are not run here.
\<close>

definition statechange :: "ctx_state \<Rightarrow> emulator_audio \<Rightarrow> emulator_audio \<times> effect list" where
  "statechange s p =
     (case audioContext p of
        None \<Rightarrow> (p, [])
      | Some a \<Rightarrow>
          let p1 = p\<lparr>audioContext := Some (a\<lparr>state := s\<rparr>)\<rparr> in
          if \<not> statechange_listener a then (p1, [])
          else if s = Running then
            let (i, w) = setTimer SettleTimeout ((win p1)\<lparr>pointerdown_listener := False\<rparr>)
            in (p1\<lparr>win := w\<rparr>, [])
          else if s = Suspended then (p1, notify p1 DidBlock)
          else (p1, []))"

definition activityTick :: "emulator_audio \<Rightarrow> emulator_audio \<times> effect list" where
  "activityTick p =
     (let bps = activityBytes p;
          p1 = p\<lparr>activityBytes := 0, lastReportedBytesPerSecond := bps\<rparr>
      in (p1, notify p1 (DidReportActivity bps)))"

definition fire_timer :: "nat \<Rightarrow> emulator_audio \<Rightarrow> emulator_audio \<times> effect list" where
  \<comment> \<open>The timer with this id comes due: a timeout is spent, an interval stays.\<close>
  "fire_timer i p =
     (case map_of (timers (win p)) i of
        None \<Rightarrow> (p, [])
      | Some SettleTimeout \<Rightarrow>
          handleAudioContextRunning (p\<lparr>win := clearInterval i (win p)\<rparr>)
      | Some ActivityInterval \<Rightarrow> activityTick p
      | Some _ \<Rightarrow> (p, []))"

subsection \<open>Sequences of operations on the ring buffer\<close>

datatype rb_op = Enqueue "byte list" | Read nat | ResetBuffer

fun rb_apply :: "rb_op \<Rightarrow> ring_buffer \<Rightarrow> ring_buffer" where
  "rb_apply (Enqueue P) rb = fst (shared_enqueueAudio rb P)"
| "rb_apply (Read n) rb = snd (pop rb n)"
| "rb_apply ResetBuffer rb = ring_reset rb"

definition rb_run :: "rb_op list \<Rightarrow> ring_buffer \<Rightarrow> ring_buffer" where
  "rb_run ops rb = fold rb_apply ops rb"

definition cyc :: "'a list \<Rightarrow> nat \<Rightarrow> nat \<Rightarrow> 'a list" where
  \<comment> \<open>The \<open>k\<close> elements of a circular storage from position \<open>rd\<close> on.\<close>
  "cyc st rd k = map (\<lambda>i. st ! ((rd + i) mod length st)) [0..<k]"

subsection \<open>States for the examples\<close>

definition window_new :: window where
  "window_new = \<lparr>pointerdown_listener = False, timers = [], next_timer_id = 1\<rparr>"

definition delegate_all :: delegate where
  \<comment> \<open>A delegate that implements every method.\<close>
  "delegate_all =
     \<lparr>emulatorAudioDidOpen = True, emulatorAudioDidRun = True, emulatorAudioDidBlock = True,
      emulatorAudioDidReportActivity = True, emulatorAudioDidProbe = True,
      emulatorAudioDidQueueStats = True\<rparr>"

definition platform_suspended :: platform where
  \<comment> \<open>A browser that creates the device suspended, until a user gesture.\<close>
  "platform_suspended =
     \<lparr>has_AudioContext = True, has_AudioWorklet = True, initial_state = Suspended\<rparr>"


definition platform_without_audio :: platform where
  "platform_without_audio =
     \<lparr>has_AudioContext = False, has_AudioWorklet = False, initial_state = Suspended\<rparr>"

section \<open>Properties\<close>

subsection \<open>Arithmetic and list facts\<close>

lemma mod_lt2: "(x::nat) < 2 * m \<Longrightarrow> x mod m = (if x < m then x else x - m)"
  by (simp add: le_mod_geq)

lemma cyc_read:
  assumes "rd < length st" "k \<le> length st"
  shows "take (min (length st - rd) k) (drop rd st) @ take (k - min (length st - rd) k) st
           = cyc st rd k"
proof (rule nth_equalityI)
  show "length (take (min (length st - rd) k) (drop rd st) @ take (k - min (length st - rd) k) st)
          = length (cyc st rd k)"
    using assms by (simp add: cyc_def)
next
  fix i
  assume "i < length (take (min (length st - rd) k) (drop rd st) @ take (k - min (length st - rd) k) st)"
  then have i: "i < k" using assms by simp
  have m: "(rd + i) mod length st = (if rd + i < length st then rd + i else rd + i - length st)"
    using assms i by (intro mod_lt2) simp
  show "(take (min (length st - rd) k) (drop rd st) @ take (k - min (length st - rd) k) st) ! i
          = cyc st rd k ! i"
  proof (cases "rd + i < length st")
    case True
    then have "i < min (length st - rd) k" using i by simp
    then show ?thesis using assms i True by (simp add: cyc_def nth_append m)
  next
    case False
    then have a: "min (length st - rd) k = length st - rd" using i by simp
    have b: "i - (length st - rd) = rd + i - length st" using False assms by simp
    have c: "\<not> i < length st - rd" using False by simp
    show ?thesis using assms i False c unfolding a by (simp add: cyc_def nth_append m b)
  qed
qed

lemma cyc_write:
  assumes "wr < length st" "tw \<le> length P" "tw \<le> length st"
  defines "fp \<equiv> min (length st - wr) tw"
  defines "s1 \<equiv> copy P 0 st wr fp"
  defines "s2 \<equiv> copy P fp s1 0 (tw - fp)"
  shows "length s2 = length st"
    and "j < length st \<Longrightarrow> s2 ! j =
          (if (j + length st - wr) mod length st < tw
           then P ! ((j + length st - wr) mod length st) else st ! j)"
proof -
  have l1: "length s1 = length st"
    using assms(1-3) by (simp add: s1_def fp_def copy_def)
  show l2: "length s2 = length st"
    using assms(1-3) l1 by (simp add: s2_def fp_def copy_def)
  assume j: "j < length st"
  have m: "(j + length st - wr) mod length st = (if wr \<le> j then j - wr else j + length st - wr)"
    using assms(1) j by (subst mod_lt2) auto
  have n1: "s1 ! j = (if j < wr then st ! j else if j < wr + fp then P ! (j - wr) else st ! j)"
    using assms(1-3) j by (auto simp: s1_def fp_def copy_def nth_append min_def)
  have lp: "length (take (tw - fp) (drop fp P)) = tw - fp"
    using assms(2) by simp
  have s2: "s2 = take (tw - fp) (drop fp P) @ drop (tw - fp) s1"
    by (simp add: s2_def copy_def)
  have n2: "s2 ! j = (if j < tw - fp then P ! (fp + j) else s1 ! j)"
  proof (cases "j < tw - fp")
    case True
    then show ?thesis unfolding s2 using lp by (simp add: nth_append)
  next
    case False
    then have "s2 ! j = drop (tw - fp) s1 ! (j - (tw - fp))"
      unfolding s2 using lp by (simp add: nth_append)
    also have "\<dots> = s1 ! j"
      using False j l1 by simp
    finally show ?thesis using False by simp
  qed
  show "s2 ! j =
          (if (j + length st - wr) mod length st < tw
           then P ! ((j + length st - wr) mod length st) else st ! j)"
  proof (cases "wr \<le> j")
    case True
    then show ?thesis unfolding n2 n1 m using assms(1-3) j
      by (auto simp: fp_def min_def)
  next
    case False
    have c: "length st - wr + j = j + length st - wr" using assms(1) by simp
    show ?thesis
    proof (cases "j < tw - fp")
      case True
      then have "fp = length st - wr" by (auto simp: fp_def min_def split: if_splits)
      moreover have "j + length st - wr < tw" using True calculation assms(1) by simp
      ultimately show ?thesis unfolding n2 n1 m using assms(1-3) j False True
        by (simp add: c)
    next
      case F2: False
      then have "\<not> j + length st - wr < tw" using False assms(1-3) by (auto simp: fp_def min_def split: if_splits)
      then show ?thesis unfolding n2 n1 m using F2 False by simp
    qed
  qed
qed


lemma take_upt0: "take k [0..<n] = [0..<min k n]"
  by (cases "k \<le> n") (simp_all add: min_def)

lemma drop_upt0: "drop k [0..<n] = [k..<n]"
  by simp

subsection \<open>The ring buffer as a queue\<close>

lemma available_read_if:
  assumes "rb_wf rb"
  shows "available_read rb =
    (if read_ptr rb \<le> write_ptr rb then write_ptr rb - read_ptr rb
     else write_ptr rb + storage_capacity rb - read_ptr rb)"
  using assms unfolding available_read_def rb_wf_def
  by (subst mod_lt2) auto

lemma available_read_le:
  assumes "rb_wf rb"
  shows "available_read rb \<le> capacity rb"
  using assms unfolding available_read_if[OF assms] rb_wf_def capacity_def by auto

lemma rb_invariant:
  assumes "rb_wf rb"
  shows "available_read rb + available_write rb = capacity rb"
  using available_read_le[OF assms] by (simp add: available_write_def)

lemma rb_contents_cyc:
  assumes "rb_wf rb"
  shows "rb_contents rb = cyc (storage rb) (read_ptr rb) (available_read rb)"
proof (cases "write_ptr rb = read_ptr rb")
  case True
  then have "available_read rb = 0" using assms by (simp add: available_read_if)
  then show ?thesis using True by (simp add: rb_contents_def pop_def cyc_def)
next
  case False
  have "available_read rb \<le> length (storage rb)"
    using available_read_le[OF assms] by (simp add: capacity_def storage_capacity_def)
  then show ?thesis
    using False assms cyc_read[of "read_ptr rb" "storage rb" "available_read rb"]
    by (simp add: rb_contents_def pop_def Let_def storage_capacity_def rb_wf_def)
qed

lemma length_rb_contents:
  assumes "rb_wf rb"
  shows "length (rb_contents rb) = available_read rb"
  by (simp add: rb_contents_cyc[OF assms] cyc_def)

lemma pop_fst:
  assumes "rb_wf rb"
  shows "fst (pop rb k) = take k (rb_contents rb)"
proof -
  let ?n = "min (available_read rb) k"
  have le: "?n \<le> length (storage rb)"
    using available_read_le[OF assms] by (simp add: capacity_def storage_capacity_def)
  have "fst (pop rb k) = cyc (storage rb) (read_ptr rb) ?n"
  proof (cases "write_ptr rb = read_ptr rb")
    case True
    then have "available_read rb = 0" using assms by (simp add: available_read_if)
    then show ?thesis using True by (simp add: pop_def cyc_def)
  next
    case False
    then show ?thesis
      using assms le cyc_read[of "read_ptr rb" "storage rb" ?n]
      by (simp add: pop_def Let_def storage_capacity_def rb_wf_def)
  qed
  also have "\<dots> = take k (rb_contents rb)"
    by (simp add: rb_contents_cyc[OF assms] cyc_def take_map take_upt0 min.commute)
  finally show ?thesis .
qed

lemma pop_snd:
  fixes rb :: ring_buffer and k :: nat
  assumes "rb_wf rb"
  defines "rb' \<equiv> snd (pop rb k)"
  shows "rb_wf rb'" and "storage rb' = storage rb" and "write_ptr rb' = write_ptr rb"
    and "read_ptr rb' = (read_ptr rb + min (available_read rb) k) mod storage_capacity rb"
    and "available_read rb' = available_read rb - k"
proof -
  have sc: "0 < storage_capacity rb" using assms(1) by (auto simp: rb_wf_def)
  show st: "storage rb' = storage rb" and wr: "write_ptr rb' = write_ptr rb"
    by (simp_all add: rb'_def pop_def Let_def)
  show rd: "read_ptr rb' = (read_ptr rb + min (available_read rb) k) mod storage_capacity rb"
  proof (cases "write_ptr rb = read_ptr rb")
    case True
    then have "available_read rb = 0" using assms by (simp add: available_read_if)
    then show ?thesis using True assms(1) by (simp add: rb'_def pop_def rb_wf_def)
  next
    case False
    then show ?thesis by (simp add: rb'_def pop_def Let_def)
  qed
  show wf: "rb_wf rb'"
    using assms(1) sc by (simp add: rb_wf_def rd wr storage_capacity_def st)
  have le: "read_ptr rb + min (available_read rb) k < 2 * storage_capacity rb"
    using assms(1) available_read_le[OF assms(1)] by (auto simp: rb_wf_def capacity_def)
  have scq: "storage_capacity rb' = storage_capacity rb" by (simp add: storage_capacity_def st)
  show "available_read rb' = available_read rb - k"
    unfolding available_read_if[OF wf] wr scq rd mod_lt2[OF le]
    using assms(1) unfolding available_read_if[OF assms(1)] rb_wf_def
    by (auto simp: min_def)
qed

lemma mod_add_lt2:
  assumes "(a::nat) < m" "b < m"
  shows "(a + b) mod m = (if a + b < m then a + b else a + b - m)"
  using assms by (intro mod_lt2) simp

lemma pop_contents:
  assumes "rb_wf rb"
  shows "rb_contents (snd (pop rb k)) = drop k (rb_contents rb)"
proof -
  let ?rb = "snd (pop rb k)"
  let ?sc = "length (storage rb)"
  let ?n = "available_read rb"
  let ?t = "min ?n k"
  note ps = pop_snd[OF assms, of k]
  have sc: "storage_capacity rb = ?sc" by (simp add: storage_capacity_def)
  have rd: "read_ptr rb < ?sc" using assms by (simp add: rb_wf_def sc)
  have n: "?n < ?sc" using available_read_le[OF assms] rd by (simp add: capacity_def sc)
  have idx: "((read_ptr rb + ?t) mod ?sc + i) mod ?sc = (read_ptr rb + (k + i)) mod ?sc"
    if "i < ?n - k" for i
  proof -
    have "?t = k" using that by simp
    then have "((read_ptr rb + ?t) mod ?sc + i) mod ?sc = ((read_ptr rb + k) mod ?sc + i) mod ?sc"
      by simp
    also have "\<dots> = (read_ptr rb + k + i) mod ?sc"
      by (simp add: mod_add_left_eq)
    finally show ?thesis by (simp add: add.assoc)
  qed
  have "rb_contents ?rb = cyc (storage rb) ((read_ptr rb + ?t) mod ?sc) (?n - k)"
    using rb_contents_cyc[OF ps(1)] by (simp add: ps sc)
  also have "\<dots> = map (\<lambda>i. storage rb ! ((read_ptr rb + i) mod ?sc)) [k..<?n]"
  proof (rule nth_equalityI)
    show "length (cyc (storage rb) ((read_ptr rb + ?t) mod ?sc) (?n - k)) =
          length (map (\<lambda>i. storage rb ! ((read_ptr rb + i) mod ?sc)) [k..<?n])"
      by (simp add: cyc_def)
  next
    fix i assume "i < length (cyc (storage rb) ((read_ptr rb + ?t) mod ?sc) (?n - k))"
    then have i: "i < ?n - k" by (simp add: cyc_def)
    show "cyc (storage rb) ((read_ptr rb + ?t) mod ?sc) (?n - k) ! i =
          map (\<lambda>i. storage rb ! ((read_ptr rb + i) mod ?sc)) [k..<?n] ! i"
      using i idx[OF i] by (simp add: cyc_def)
  qed
  also have "\<dots> = drop k (rb_contents rb)"
    by (simp add: rb_contents_cyc[OF assms] cyc_def drop_map)
  finally show ?thesis .
qed

lemma push_full:
  assumes "rb_wf rb" "(write_ptr rb + 1) mod storage_capacity rb = read_ptr rb"
  shows "available_write rb = 0"
proof -
  have "available_read rb = capacity rb"
  proof (cases "write_ptr rb + 1 < storage_capacity rb")
    case True
    then show ?thesis using assms
      by (simp add: available_read_if capacity_def rb_wf_def)
  next
    case False
    then have "write_ptr rb + 1 = storage_capacity rb" using assms(1) by (simp add: rb_wf_def)
    then show ?thesis using assms
      by (auto simp: available_read_if capacity_def rb_wf_def)
  qed
  then show ?thesis by (simp add: available_write_def)
qed

lemma push_snd:
  fixes rb :: ring_buffer and P :: "byte list"
  assumes "rb_wf rb"
  defines "tw \<equiv> min (available_write rb) (length P)"
  defines "rb' \<equiv> snd (push rb P)"
  shows "fst (push rb P) = tw"
    and "rb_wf rb'" and "length (storage rb') = length (storage rb)"
    and "read_ptr rb' = read_ptr rb"
    and "write_ptr rb' = (write_ptr rb + tw) mod storage_capacity rb"
    and "available_read rb' = available_read rb + tw"
    and "j < length (storage rb) \<Longrightarrow> storage rb' ! j =
          (if (j + length (storage rb) - write_ptr rb) mod length (storage rb) < tw
           then P ! ((j + length (storage rb) - write_ptr rb) mod length (storage rb))
           else storage rb ! j)"
proof -
  let ?sc = "length (storage rb)"
  have sc: "storage_capacity rb = ?sc" by (simp add: storage_capacity_def)
  have wr: "write_ptr rb < ?sc" and rd: "read_ptr rb < ?sc" using assms(1) by (simp_all add: rb_wf_def sc)
  have twP: "tw \<le> length P" by (simp add: tw_def)
  have tw_aw: "tw \<le> available_write rb" by (simp add: tw_def)
  have aw: "available_write rb + available_read rb = ?sc - 1"
    using rb_invariant[OF assms(1)] by (simp add: capacity_def sc add.commute)
  have twsc: "tw \<le> ?sc" using tw_aw aw by simp
  note cw = cyc_write[OF wr twP twsc]
  show f: "fst (push rb P) = tw"
    using push_full[OF assms(1)] by (auto simp: push_def Let_def tw_def)
  show rdq: "read_ptr rb' = read_ptr rb"
    by (simp add: rb'_def push_def Let_def)
  show len: "length (storage rb') = ?sc"
  proof (cases "(write_ptr rb + 1) mod storage_capacity rb = read_ptr rb")
    case True
    then show ?thesis by (simp add: rb'_def push_def)
  next
    case False
    then show ?thesis using cw(1) by (simp add: rb'_def push_def Let_def sc tw_def)
  qed
  show wrq: "write_ptr rb' = (write_ptr rb + tw) mod storage_capacity rb"
  proof (cases "(write_ptr rb + 1) mod storage_capacity rb = read_ptr rb")
    case True
    then have "tw = 0" using push_full[OF assms(1)] by (simp add: tw_def)
    then show ?thesis using True wr by (simp add: rb'_def push_def sc)
  next
    case False
    then show ?thesis by (simp add: rb'_def push_def Let_def tw_def)
  qed
  have pos: "0 < ?sc" using wr by (cases "storage rb") simp_all
  show wf: "rb_wf rb'"
    using wr rd pos by (simp add: rb_wf_def storage_capacity_def len rdq wrq sc)
  have lt2: "write_ptr rb + tw < 2 * ?sc" using wr twsc by simp
  have wm: "(write_ptr rb + tw) mod ?sc =
      (if write_ptr rb + tw < ?sc then write_ptr rb + tw else write_ptr rb + tw - ?sc)"
    by (rule mod_lt2[OF lt2])
  have ar': "available_read rb' =
      (if read_ptr rb \<le> (write_ptr rb + tw) mod ?sc then (write_ptr rb + tw) mod ?sc - read_ptr rb
       else (write_ptr rb + tw) mod ?sc + ?sc - read_ptr rb)"
    using available_read_if[OF wf] by (simp add: rdq wrq storage_capacity_def len)
  have ar: "available_read rb =
      (if read_ptr rb \<le> write_ptr rb then write_ptr rb - read_ptr rb
       else write_ptr rb + ?sc - read_ptr rb)"
    using available_read_if[OF assms(1)] by (simp add: sc)
  show "available_read rb' = available_read rb + tw"
    using wr rd tw_aw aw unfolding ar' wm ar
    by (auto split: if_splits)
  assume j: "j < ?sc"
  show "storage rb' ! j =
          (if (j + ?sc - write_ptr rb) mod ?sc < tw
           then P ! ((j + ?sc - write_ptr rb) mod ?sc)
           else storage rb ! j)"
  proof (cases "(write_ptr rb + 1) mod storage_capacity rb = read_ptr rb")
    case True
    then have "tw = 0" using push_full[OF assms(1)] by (simp add: tw_def)
    then show ?thesis using True by (simp add: rb'_def push_def)
  next
    case False
    then show ?thesis using cw(2)[OF j] by (simp add: rb'_def push_def Let_def sc tw_def)
  qed
qed

lemma push_contents:
  fixes rb :: ring_buffer and P :: "byte list"
  assumes "rb_wf rb"
  defines "tw \<equiv> min (available_write rb) (length P)"
  shows "rb_contents (snd (push rb P)) = rb_contents rb @ take tw P"
proof (rule nth_equalityI)
  let ?rb = "snd (push rb P)"
  let ?sc = "length (storage rb)"
  let ?n = "available_read rb"
  note ps = push_snd[OF assms(1), where P = P, folded tw_def]
  have sc: "storage_capacity rb = ?sc" by (simp add: storage_capacity_def)
  have wr: "write_ptr rb < ?sc" and rd: "read_ptr rb < ?sc"
    using assms(1) by (simp_all add: rb_wf_def sc)
  have twP: "tw \<le> length P" by (simp add: tw_def)
  have aw: "available_write rb + ?n = ?sc - 1"
    using rb_invariant[OF assms(1)] by (simp add: capacity_def sc add.commute)
  have tot: "?n + tw \<le> ?sc - 1" using aw by (simp add: tw_def)
  have ar: "?n = (if read_ptr rb \<le> write_ptr rb then write_ptr rb - read_ptr rb
       else write_ptr rb + ?sc - read_ptr rb)"
    using available_read_if[OF assms(1)] by (simp add: sc)
  have c': "rb_contents ?rb = cyc (storage ?rb) (read_ptr rb) (?n + tw)"
    using rb_contents_cyc[OF ps(2)] by (simp add: ps)
  have c: "rb_contents rb = cyc (storage rb) (read_ptr rb) ?n"
    by (rule rb_contents_cyc[OF assms(1)])
  show len: "length (rb_contents ?rb) = length (rb_contents rb @ take tw P)"
    using twP by (simp add: c c' cyc_def)
  fix i assume "i < length (rb_contents ?rb)"
  then have i: "i < ?n + tw" by (simp add: c' cyc_def)
  define j where "j = (read_ptr rb + i) mod ?sc"
  have jm: "j = (if read_ptr rb + i < ?sc then read_ptr rb + i else read_ptr rb + i - ?sc)"
    unfolding j_def using rd i tot by (intro mod_lt2) simp
  have j: "j < ?sc" using rd i tot by (auto simp: jm)
  have km: "(j + ?sc - write_ptr rb) mod ?sc =
      (if write_ptr rb \<le> j then j - write_ptr rb else j + ?sc - write_ptr rb)"
    using wr j by (subst mod_lt2) auto
  have key: "(j + ?sc - write_ptr rb) mod ?sc = (if ?n \<le> i then i - ?n else ?sc + i - ?n)"
    unfolding km using jm wr rd i tot ar
    by (auto split: if_splits)
  have "rb_contents ?rb ! i = storage ?rb ! j"
    using i by (simp add: c' cyc_def j_def ps)
  also have "\<dots> = (if ?n \<le> i then P ! (i - ?n) else storage rb ! j)"
    using ps(7)[OF j] i tot unfolding key by auto
  also have "\<dots> = (rb_contents rb @ take tw P) ! i"
    using i by (auto simp: nth_append c cyc_def j_def)
  finally show "rb_contents ?rb ! i = (rb_contents rb @ take tw P) ! i" .
qed


lemma RingBuffer_new_wf: "rb_wf (RingBuffer_new n)"
  by (simp add: rb_wf_def RingBuffer_new_def storage_capacity_def)

lemma RingBuffer_new_capacity: "capacity (RingBuffer_new n) = n"
  by (simp add: capacity_def RingBuffer_new_def storage_capacity_def)

lemma RingBuffer_new_empty: "available_read (RingBuffer_new n) = 0"
  by (simp add: available_read_def RingBuffer_new_def storage_capacity_def)

lemma capacity_push:
  assumes "rb_wf rb"
  shows "capacity (snd (push rb P)) = capacity rb"
  using push_snd(3)[OF assms, of P] by (simp add: capacity_def storage_capacity_def)

lemma capacity_pop: "capacity (snd (pop rb k)) = capacity rb"
  by (simp add: capacity_def storage_capacity_def pop_def Let_def)

lemma rb_apply_wf:
  assumes "rb_wf rb"
  shows "rb_wf (rb_apply op rb) \<and> capacity (rb_apply op rb) = capacity rb"
proof (cases op)
  case (Enqueue P)
  then show ?thesis
    using assms push_snd(2)[OF assms, of P] capacity_push[OF assms, of P]
    by (simp add: shared_enqueueAudio_def Let_def)
next
  case (Read n)
  then show ?thesis using pop_snd(1)[OF assms, of n] by (simp add: capacity_pop)
next
  case ResetBuffer
  then show ?thesis
    using pop_snd(1)[OF assms, of "available_read rb"] by (simp add: capacity_pop ring_reset_def)
qed

lemma rb_run_wf:
  assumes "rb_wf rb"
  shows "rb_wf (rb_run ops rb) \<and> capacity (rb_run ops rb) = capacity rb"
  using assms
proof (induction ops arbitrary: rb)
  case Nil
  then show ?case by (simp add: rb_run_def)
next
  case (Cons op ops)
  from rb_apply_wf[OF Cons.prems, of op]
  have w: "rb_wf (rb_apply op rb)" and c: "capacity (rb_apply op rb) = capacity rb"
    by simp_all
  from Cons.IH[OF w] c show ?case by (simp add: rb_run_def)
qed


subsection \<open>The shared-memory transport\<close>

text \<open>
  Claim C1. When the payload is longer than the free space of the ring buffer,
  \<^verbatim>\<open>enqueueAudio\<close> of the shared-memory transport returns with the ring buffer exactly as
  it was (storage and both cursors: nothing is written, not even in part) and prints one
  warning that names the payload's length and the free space. The function is total: it
  neither blocks nor raises.
\<close>

theorem shared_enqueue_overflow_rejected: "available_write rb < length P \<Longrightarrow>
  shared_enqueueAudio rb P = (rb, [CannotFit (length P) (available_write rb)])"
  by (simp add: shared_enqueueAudio_def)

text \<open>A ring buffer for two bytes refuses a payload of three.\<close>

theorem shared_enqueue_overflow_rejected_witness: "available_write (RingBuffer_new 2) < length [1, 2, 3 :: byte] \<and>
  shared_enqueueAudio (RingBuffer_new 2) [1, 2, 3] = (RingBuffer_new 2, [CannotFit 3 2])"
proof -
  have aw: "available_write (RingBuffer_new 2) = 2"
    by (simp add: available_write_def RingBuffer_new_capacity RingBuffer_new_empty)
  then have h: "available_write (RingBuffer_new 2) < length [1, 2, 3 :: byte]" by simp
  show ?thesis using shared_enqueue_overflow_rejected[OF h] h by (simp add: aw)
qed

lemma enqueue_fits:
  assumes "rb_wf rb" "length P \<le> available_write rb"
  defines "rb' \<equiv> fst (shared_enqueueAudio rb P)"
  shows "rb_wf rb'" and "available_read rb' = available_read rb + length P"
    and "rb_contents rb' = rb_contents rb @ P" and "snd (shared_enqueueAudio rb P) = []"
proof -
  have e: "shared_enqueueAudio rb P = (snd (push rb P), [])"
    using assms(2) by (simp add: shared_enqueueAudio_def)
  have m: "min (available_write rb) (length P) = length P" using assms(2) by simp
  show "rb_wf rb'" using push_snd(2)[OF assms(1), of P] by (simp add: rb'_def e)
  show "available_read rb' = available_read rb + length P"
    using push_snd(6)[OF assms(1), of P] by (simp add: rb'_def e m)
  show "rb_contents rb' = rb_contents rb @ P"
    using push_contents[OF assms(1), of P] by (simp add: rb'_def e m)
  show "snd (shared_enqueueAudio rb P) = []" by (simp add: e)
qed

text \<open>
  Claim C2, as the code has it. When the payload \<open>P\<close> fits, \<^verbatim>\<open>enqueueAudio\<close> increases
  \<^verbatim>\<open>available_read()\<close> by exactly the length of \<open>P\<close>, and the queue is first in, first out:
  reading everything afterwards returns the bytes that were already waiting, followed by
  \<open>P\<close> unchanged and in order, and reading \<open>length P\<close> bytes once the earlier bytes have
  been read returns \<open>P\<close>. With a capacity of 250 bytes, two enqueues of 100 bytes leave 200
  bytes to read, and a third one is refused as a whole, with a warning, the ring buffer
  unchanged and 200 bytes to read.
\<close>

theorem shared_enqueue_fifo:
  assumes "rb_wf rb" "length P \<le> available_write rb"
    and "length A = 100" "length B = 100" "length C = 100"
  shows "available_read (fst (shared_enqueueAudio rb P)) = available_read rb + length P
    \<and> fst (pop (fst (shared_enqueueAudio rb P)) (available_read rb + length P))
        = rb_contents rb @ P
    \<and> fst (pop (snd (pop (fst (shared_enqueueAudio rb P)) (available_read rb))) (length P)) = P
    \<and> available_read (rb_run [Enqueue A, Enqueue B] (RingBuffer_new 250)) = 200
    \<and> shared_enqueueAudio (rb_run [Enqueue A, Enqueue B] (RingBuffer_new 250)) C
        = (rb_run [Enqueue A, Enqueue B] (RingBuffer_new 250), [CannotFit 100 50])
    \<and> available_read (rb_run [Enqueue A, Enqueue B, Enqueue C] (RingBuffer_new 250)) = 200"
proof -
  let ?rb = "fst (shared_enqueueAudio rb P)"
  note ef = enqueue_fits[OF assms(1,2)]
  have 1: "available_read ?rb = available_read rb + length P" by (rule ef(2))
  have 2: "fst (pop ?rb (available_read rb + length P)) = rb_contents rb @ P"
    using pop_fst[OF ef(1), of "available_read rb + length P"] length_rb_contents[OF assms(1)]
    by (simp add: ef(3))
  have 3: "fst (pop (snd (pop ?rb (available_read rb))) (length P)) = P"
    using pop_fst[OF pop_snd(1)[OF ef(1), of "available_read rb"], of "length P"]
      pop_contents[OF ef(1), of "available_read rb"] length_rb_contents[OF assms(1)]
    by (simp add: ef(3))
  let ?r0 = "RingBuffer_new 250"
  let ?r1 = "fst (shared_enqueueAudio ?r0 A)"
  let ?r2 = "fst (shared_enqueueAudio ?r1 B)"
  have aw0: "available_write ?r0 = 250"
    by (simp add: available_write_def RingBuffer_new_capacity RingBuffer_new_empty)
  have f1: "length A \<le> available_write ?r0" using assms(3) aw0 by simp
  note e1 = enqueue_fits[OF RingBuffer_new_wf f1]
  have ar1: "available_read ?r1 = 100" using e1(2) assms(3) by (simp add: RingBuffer_new_empty)
  have c1: "capacity ?r1 = 250"
    using rb_apply_wf[OF RingBuffer_new_wf, of "Enqueue A" 250] by (simp add: RingBuffer_new_capacity)
  have aw1: "available_write ?r1 = 150" by (simp add: available_write_def c1 ar1)
  have f2: "length B \<le> available_write ?r1" using assms(4) aw1 by simp
  note e2 = enqueue_fits[OF e1(1) f2]
  have ar2: "available_read ?r2 = 200" using e2(2) assms(4) ar1 by simp
  have c2: "capacity ?r2 = 250"
    using rb_apply_wf[OF e1(1), of "Enqueue B"] c1 by simp
  have aw2: "available_write ?r2 = 50" by (simp add: available_write_def c2 ar2)
  have run2: "rb_run [Enqueue A, Enqueue B] ?r0 = ?r2" by (simp add: rb_run_def)
  have rej: "shared_enqueueAudio ?r2 C = (?r2, [CannotFit 100 50])"
    using assms(5) aw2 by (simp add: shared_enqueueAudio_def)
  have run3: "rb_run [Enqueue A, Enqueue B, Enqueue C] ?r0 = ?r2"
    by (simp add: rb_run_def rej)
  show ?thesis
    unfolding run2 run3 using 1 2 3 ar2 rej by simp
qed

text \<open>
  One byte is waiting in a ring buffer for four; two more are enqueued and all three come
  out in order. Then the scenario of the spec on payloads of a hundred equal bytes.
\<close>

theorem shared_enqueue_fifo_witness:
  "rb_wf (fst (shared_enqueueAudio (RingBuffer_new 4) [7]))
   \<and> length [8, 9 :: byte] \<le> available_write (fst (shared_enqueueAudio (RingBuffer_new 4) [7]))
   \<and> available_read (fst (shared_enqueueAudio (fst (shared_enqueueAudio (RingBuffer_new 4) [7])) [8, 9])) = 3
   \<and> fst (pop (fst (shared_enqueueAudio (fst (shared_enqueueAudio (RingBuffer_new 4) [7])) [8, 9])) 3)
        = [7, 8, 9]
   \<and> fst (pop (snd (pop (fst (shared_enqueueAudio (fst (shared_enqueueAudio (RingBuffer_new 4) [7])) [8, 9])) 1)) 2)
        = [8, 9]
   \<and> available_read (rb_run [Enqueue (replicate 100 1), Enqueue (replicate 100 2)]
        (RingBuffer_new 250)) = 200
   \<and> snd (shared_enqueueAudio (rb_run [Enqueue (replicate 100 1), Enqueue (replicate 100 2)]
        (RingBuffer_new 250)) (replicate 100 3)) = [CannotFit 100 50]
   \<and> available_read (rb_run [Enqueue (replicate 100 1), Enqueue (replicate 100 2),
        Enqueue (replicate 100 3)] (RingBuffer_new 250)) = 200"
proof -
  let ?rb = "fst (shared_enqueueAudio (RingBuffer_new 4) [7])"
  have wf: "rb_wf ?rb" by code_simp
  have aw: "available_write ?rb = 3" by code_simp
  have ar: "available_read ?rb = 1" by code_simp
  have ct: "rb_contents ?rb = [7]" by code_simp
  have fits: "length [8, 9 :: byte] \<le> available_write ?rb" by (simp add: aw)
  have la: "length (replicate 100 (1::byte)) = 100" and lb: "length (replicate 100 (2::byte)) = 100"
    and lc: "length (replicate 100 (3::byte)) = 100" by simp_all
  show ?thesis
    using shared_enqueue_fifo[OF wf fits la lb lc] wf fits by (simp add: ar ct numeral_3_eq_3 numeral_2_eq_2)
qed

text \<open>
  The claim as the spec words it, that reading \<open>length P\<close> bytes right after the enqueue
  returns \<open>P\<close>, fails when bytes were waiting: after \<open>[1]\<close> and then \<open>[2]\<close> are enqueued,
  reading one byte returns \<open>[1]\<close>.
\<close>

theorem shared_enqueue_read_back_counterexample:
  "length [2 :: byte] \<le> available_write (fst (shared_enqueueAudio (RingBuffer_new 4) [1]))
   \<and> fst (pop (fst (shared_enqueueAudio (fst (shared_enqueueAudio (RingBuffer_new 4) [1])) [2]))
        (length [2 :: byte])) = [1]
   \<and> [1] \<noteq> [2 :: byte]"
  by code_simp

text \<open>
  Claim C6. Whatever sequence of enqueues (by the worker), reads (by the renderer) and
  resets (by the player) a ring buffer built for \<open>n\<close> bytes goes through, after each of
  them \<^verbatim>\<open>available_read()\<close> and \<^verbatim>\<open>available_write()\<close> add up to \<open>n\<close>, and the capacity is \<open>n\<close>
  still. The statement is about every sequence, hence about every prefix of one.
\<close>

theorem ring_buffer_occupancy_invariant: "available_read (rb_run ops (RingBuffer_new n))
      + available_write (rb_run ops (RingBuffer_new n)) = n
    \<and> capacity (rb_run ops (RingBuffer_new n)) = n"
  using rb_run_wf[OF RingBuffer_new_wf, of ops n]
    rb_invariant[of "rb_run ops (RingBuffer_new n)"]
  by (simp add: RingBuffer_new_capacity)

subsection \<open>The fallback transport\<close>




lemma fallback_invariant:
  "0 \<le> estimatedBufferedBytes (FallbackEmulatorWorkerAudio_new t) \<and>
   0 < bytesPerSecond (FallbackEmulatorWorkerAudio_new t)"
  "0 \<le> estimatedBufferedBytes w \<and> 0 < bytesPerSecond w \<Longrightarrow>
     0 \<le> estimatedBufferedBytes (setAudioFormat sr ss ch w) \<and>
     0 < bytesPerSecond (setAudioFormat sr ss ch w)"
  "0 \<le> estimatedBufferedBytes w \<and> 0 < bytesPerSecond w \<Longrightarrow>
     0 \<le> estimatedBufferedBytes (drainEstimate now w) \<and>
     0 < bytesPerSecond (drainEstimate now w)"
  "0 \<le> estimatedBufferedBytes w \<and> 0 < bytesPerSecond w \<Longrightarrow>
     0 \<le> estimatedBufferedBytes (snd (fallback_enqueueAudio now P w)) \<and>
     0 < bytesPerSecond (snd (fallback_enqueueAudio now P w))"
  by (auto simp: FallbackEmulatorWorkerAudio_new_def setAudioFormat_def drainEstimate_def
        fallback_enqueueAudio_def Let_def)






subsection \<open>The player: telemetry of the renderer\<close>




subsection \<open>The player: \<^verbatim>\<open>init\<close> without an audio subsystem\<close>

text \<open>
  Claim C8. Where the platform has no \<^verbatim>\<open>AudioContext\<close>, \<^verbatim>\<open>init\<close> returns, whatever the format
  and the debug flag: the state of the player and of the window is unchanged, so that no
  timer and no listener is registered, and the only effect is the warning.
\<close>

theorem init_without_AudioContext:
  "\<not> has_AudioContext env \<Longrightarrow>
     init env sr ss ch debug p = (p, [Warn AudioContextNotSupported])"
  by (simp add: init_def)

theorem init_without_AudioContext_witness:
  "\<not> has_AudioContext platform_without_audio
   \<and> init platform_without_audio 44100 16 2 False
        (EmulatorAudio_new FallbackEmulatorAudio (Some delegate_all) window_new)
      = (EmulatorAudio_new FallbackEmulatorAudio (Some delegate_all) window_new,
         [Warn AudioContextNotSupported])
   \<and> timers (win (fst (init platform_without_audio 44100 16 2 False
        (EmulatorAudio_new FallbackEmulatorAudio (Some delegate_all) window_new)))) = []
   \<and> \<not> pointerdown_listener (win (fst (init platform_without_audio 44100 16 2 False
        (EmulatorAudio_new FallbackEmulatorAudio (Some delegate_all) window_new))))"
proof -
  have h: "\<not> has_AudioContext platform_without_audio" by (simp add: platform_without_audio_def)
  show ?thesis
    using init_without_AudioContext[OF h, of 44100 16 2 False
        "EmulatorAudio_new FallbackEmulatorAudio (Some delegate_all) window_new"] h
    by (simp add: EmulatorAudio_new_def window_new_def)
qed

subsection \<open>The player: \<^verbatim>\<open>flush\<close>\<close>



lemma resetAudioBuffer_frame:
  "(fst (resetAudioBuffer p))\<lparr>sub := s\<rparr> = p\<lparr>sub := s\<rparr>"
  by (simp add: resetAudioBuffer_def split: audio_subclass.splits)













subsection \<open>The player: \<^verbatim>\<open>stop\<close>\<close>

text \<open>
  \<^verbatim>\<open>stop\<close> resets the counters, the format fields and the probe tap, removes the
  \<^verbatim>\<open>pointerdown\<close> listener, clears the three intervals it has the ids of, and a second
  \<^verbatim>\<open>stop\<close> right after the first changes nothing.
\<close>

lemma clearIfSet_fields:
  "timers (clearIfSet x w) = filter (\<lambda>t. \<not> (truthy x \<and> fst t = the x)) (timers w)"
  "pointerdown_listener (clearIfSet x w) = pointerdown_listener w"
  "next_timer_id (clearIfSet x w) = next_timer_id w"
  by (simp_all add: clearIfSet_def clearInterval_def)

lemma stop_fields:
  "audioContext (fst (stop p)) =
     (case audioContext p of None \<Rightarrow> None | Some a \<Rightarrow> Some (a\<lparr>state := Closed\<rparr>))"
  "win (fst (stop p)) =
     clearIfSet (debugInterval p) (clearIfSet (probeInterval p)
       (clearIfSet (activityInterval p) ((win p)\<lparr>pointerdown_listener := False\<rparr>)))"
  "activityInterval (fst (stop p)) = activityInterval p"
  "probeInterval (fst (stop p)) = probeInterval p"
  "debugInterval (fst (stop p)) = debugInterval p"
  "delegate (fst (stop p)) = delegate p"
  "emulatorPlaybackNode (fst (stop p)) = emulatorPlaybackNode p"
  "sub (fst (stop p)) = sub p"
  by (simp_all add: stop_def Let_def)

lemma stop_resets:
  "activityBytes (fst (stop p)) = 0 \<and> lastReportedBytesPerSecond (fst (stop p)) = 0
   \<and> queueBufferedMs (fst (stop p)) = 0 \<and> queueDroppedChunks (fst (stop p)) = 0
   \<and> sampleRate (fst (stop p)) = 0 \<and> sampleSize (fst (stop p)) = 0 \<and> channels (fst (stop p)) = 0
   \<and> \<not> audioRunning (fst (stop p)) \<and> \<not> analyser (fst (stop p))
   \<and> \<not> pointerdown_listener (win (fst (stop p)))"
  by (simp add: stop_fields clearIfSet_fields) (simp add: stop_def Let_def)

lemma stop_idempotent: "fst (stop (fst (stop p))) = fst (stop p)"
proof (rule emulator_audio.equality)
  show "audioContext (fst (stop (fst (stop p)))) = audioContext (fst (stop p))"
    by (simp add: stop_fields split: option.splits)
  show "win (fst (stop (fst (stop p)))) = win (fst (stop p))"
  proof (rule window.equality)
    show "timers (win (fst (stop (fst (stop p))))) = timers (win (fst (stop p)))"
      by (simp add: stop_fields clearIfSet_fields) (rule filter_cong, auto)
  qed (simp_all add: stop_fields clearIfSet_fields)
qed (simp_all add: stop_def Let_def)

lemma stop_clears_intervals:
  assumes "x \<in> {activityInterval p, probeInterval p, debugInterval p}" "truthy x"
  shows "the x \<notin> fst ` set (timers (win (fst (stop p))))"
  using assms by (auto simp: stop_fields clearIfSet_fields)

text \<open>
  Claim C9 says more: that \<^verbatim>\<open>stop\<close> clears all timers. The timeout that the
  \<^verbatim>\<open>statechange\<close> listener sets when the device starts running, to call
  \<^verbatim>\<open>handleAudioContextRunning\<close> 250 ms later, is not among those \<^verbatim>\<open>stop\<close> clears: the player
  keeps no id of it. A player is initialised on a platform that creates the device
  suspended, the device starts running, and \<^verbatim>\<open>stop\<close> is called before the timeout is due.
  The timeout is still pending after \<^verbatim>\<open>stop\<close>; when it fires, the stopped player marks
  itself running, posts a reset, tells the emulator to produce audio, notifies the
  delegate, and sets two new intervals.
\<close>

theorem stop_leaves_settle_timeout:
  "timers (win (fst (stop (fst (statechange Running (fst (init platform_suspended 44100 16 2 False
      (EmulatorAudio_new FallbackEmulatorAudio (Some delegate_all) window_new)))))))) = [(1, SettleTimeout)]
   \<and> fire_timer 1 (fst (stop (fst (statechange Running (fst (init platform_suspended 44100 16 2 False
      (EmulatorAudio_new FallbackEmulatorAudio (Some delegate_all) window_new)))))))
     = ((fst (stop (fst (statechange Running (fst (init platform_suspended 44100 16 2 False
          (EmulatorAudio_new FallbackEmulatorAudio (Some delegate_all) window_new)))))))
        \<lparr>audioRunning := True, activityInterval := Some 2, probeInterval := Some 3,
          win := \<lparr>pointerdown_listener = False,
                   timers = [(2, ActivityInterval), (3, ProbeInterval)], next_timer_id = 4\<rparr>\<rparr>,
        [PostMessage Reset, HandleInput, Notify DidRun])"
  by code_simp

end
